theory Spec2Isabelle
  imports Main "HOL-Library.Word" "HOL-Library.Multiset"
begin

section \<open>Outcomes of a call\<close>

text \<open>
  A Go call either returns, never returns (it waits on a channel that nobody serves), or
  panics. An \<open>error\<close> is the message of the Go error; the Go value \<open>nil\<close> of type
  \<open>error\<close> is \<open>None\<close>.
\<close>

type_synonym error = string

datatype 'a outcome = Returned 'a | Blocked | Panicked string

section \<open>search/query/numeric\_range.go\<close>

text \<open>
  A Go pointer is \<open>nil\<close> or the address of an object. \<open>Validate\<close> compares pointers
  only and never reads what they point to, so the \<open>float64\<close> and \<open>bool\<close> values stay
  behind their addresses.
\<close>

datatype pointer = NilPtr | Ptr nat

record NumericRangeQuery =
  Min :: pointer
  Max :: pointer
  InclusiveMin :: pointer
  InclusiveMax :: pointer
  Field :: string
  Boost :: pointer

text \<open>Lines 43-50.\<close>

definition NewNumericRangeInclusiveQuery ::
  "pointer \<Rightarrow> pointer \<Rightarrow> pointer \<Rightarrow> pointer \<Rightarrow> NumericRangeQuery" where
  "NewNumericRangeInclusiveQuery min' max' minInclusive maxInclusive =
     \<lparr>Min = min', Max = max', InclusiveMin = minInclusive, InclusiveMax = maxInclusive,
      Field = [], Boost = NilPtr\<rparr>"

text \<open>Lines 35-37.\<close>

definition NewNumericRangeQuery :: "pointer \<Rightarrow> pointer \<Rightarrow> NumericRangeQuery" where
  "NewNumericRangeQuery min' max' = NewNumericRangeInclusiveQuery min' max' NilPtr NilPtr"

text \<open>Lines 69-74: the test is \<open>q.Min == nil && q.Min == q.Max\<close>, on pointers.\<close>

definition Validate :: "NumericRangeQuery \<Rightarrow> error option" where
  "Validate q =
     (if Min q = NilPtr \<and> Min q = Max q
      then Some ''numeric range query must specify min or max''
      else None)"

section \<open>Documents, fields and analysis results\<close>

text \<open>
  Modelled from the spec: the indexing options of package \<open>document\<close> are not part of the
  sources at hand. The spec speaks of a field that is "stored and indexed"; the options are
  a set of flags, \<open>IndexField|StoreField\<close> is the set holding both.
\<close>

datatype IndexingOption = IndexField | StoreField | IncludeTermVectors

type_synonym IndexingOptions = "IndexingOption set"

definition IsIndexed :: "IndexingOptions \<Rightarrow> bool" where
  "IsIndexed opts = (IndexField \<in> opts)"

definition IsStored :: "IndexingOptions \<Rightarrow> bool" where
  "IsStored opts = (StoreField \<in> opts)"

text \<open>
  A field as \<open>NewTextFieldCustom(name, arrayPositions, value, options, analyzer)\<close> builds
  it; a \<open>nil\<close> slice is the empty list and a \<open>nil\<close> analyzer is \<open>None\<close>.
\<close>

record Field =
  Name :: string
  ArrayPositions :: "nat list"
  Value :: string
  Options :: IndexingOptions
  Analyzer :: "string option"

type_synonym TokenFrequencies = "(string \<times> nat) list"

text \<open>
  Modelled from the spec: a composite field "accumulates contributions from the plain
  fields it subsumes"; it is the list of what \<open>Compose\<close> was given.
\<close>

type_synonym CompositeField = "(string \<times> int \<times> TokenFrequencies) list"

definition Compose :: "CompositeField \<Rightarrow> string \<Rightarrow> int \<Rightarrow> TokenFrequencies \<Rightarrow> CompositeField" where
  "Compose c field fieldLength tokenFreqs = c @ [(field, fieldLength, tokenFreqs)]"

record Document =
  ID :: string
  Fields :: "Field list"
  CompositeFields :: "CompositeField list"

text \<open>
  Modelled from the spec: \<open>document.NewTextFieldCustom\<close> and \<open>Document.AddField\<close> are not
  part of the sources at hand. The spec has the identity field "injected" into the
  document: a plain field joins the end of \<open>Fields\<close>.
\<close>

definition NewTextFieldCustom ::
  "string \<Rightarrow> nat list \<Rightarrow> string \<Rightarrow> IndexingOptions \<Rightarrow> string option \<Rightarrow> Field" where
  "NewTextFieldCustom name arrayPositions value options analyzer =
     \<lparr>Name = name, ArrayPositions = arrayPositions, Value = value, Options = options,
      Analyzer = analyzer\<rparr>"

definition AddField :: "Document \<Rightarrow> Field \<Rightarrow> Document" where
  "AddField d f = d\<lparr>Fields := Fields d @ [f]\<rparr>"

record AnalysisResult =
  Document :: Document
  Analyzed :: "TokenFrequencies list"
  Length :: "int list"

text \<open>
  scorch.go, lines 187-210. \<open>field.Analyze()\<close> belongs to the analyzer collaborator and is
  the parameter \<open>fieldAnalyze\<close>. Entries of fields that are not indexed, and of composite
  fields, keep the zero value that \<open>make\<close> gave them. Each indexed field is composed into
  every composite field, in the order of \<open>d.Fields\<close>.
\<close>

definition Analyze :: "(Field \<Rightarrow> int \<times> TokenFrequencies) \<Rightarrow> Document \<Rightarrow> AnalysisResult" where
  "Analyze fieldAnalyze d =
     (let n = length (CompositeFields d);
          indexed = filter (\<lambda>field. IsIndexed (Options field)) (Fields d)
      in \<lparr>Document = d\<lparr>CompositeFields :=
             map (\<lambda>c. fold (\<lambda>field c'. Compose c' (Name field)
                                (fst (fieldAnalyze field)) (snd (fieldAnalyze field)))
                        indexed c)
                 (CompositeFields d)\<rparr>,
          Analyzed = map (\<lambda>field. if IsIndexed (Options field)
                                   then snd (fieldAnalyze field) else [])
                         (Fields d) @ replicate n [],
          Length = map (\<lambda>field. if IsIndexed (Options field)
                                 then fst (fieldAnalyze field) else 0)
                       (Fields d) @ replicate n 0\<rparr>)"

section \<open>Batches (package index)\<close>

text \<open>
  Modelled from the spec: \<open>index.Batch\<close> and its builders are not part of the sources at
  hand. The spec: a batch is a "mapping from document ID to either a document-with-fields or
  an absence (tombstone), plus a mapping of internal metadata key/value upserts and deletes".
  \<open>IndexOps\<close> is a Go map; \<open>Scorch.Batch\<close> ranges over it, so it is an association list
  with distinct keys whose order is the order the iteration happens to take. A \<open>nil\<close>
  document or a \<open>nil\<close> byte slice is \<open>None\<close>.
\<close>

type_synonym IndexOps = "(string \<times> Document option) list"

type_synonym InternalOps = "string \<rightharpoonup> string option"

record Batch =
  IndexOps :: IndexOps
  InternalOps :: InternalOps

definition NewBatch :: Batch where
  "NewBatch = \<lparr>IndexOps = [], InternalOps = Map.empty\<rparr>"

text \<open>The Go assignment \<open>m[k] = v\<close> on the association list.\<close>

fun assign :: "IndexOps \<Rightarrow> string \<Rightarrow> Document option \<Rightarrow> IndexOps" where
  "assign [] k v = [(k, v)]"
| "assign ((k', v') # ops) k v = (if k' = k then (k, v) # ops else (k', v') # assign ops k v)"

definition Batch_Update :: "Batch \<Rightarrow> Document \<Rightarrow> Batch" where
  "Batch_Update b doc = b\<lparr>IndexOps := assign (IndexOps b) (ID doc) (Some doc)\<rparr>"

definition Batch_Delete :: "Batch \<Rightarrow> string \<Rightarrow> Batch" where
  "Batch_Delete b docID = b\<lparr>IndexOps := assign (IndexOps b) docID None\<rparr>"

definition Batch_SetInternal :: "Batch \<Rightarrow> string \<Rightarrow> string option \<Rightarrow> Batch" where
  "Batch_SetInternal b key val = b\<lparr>InternalOps := (InternalOps b)(key \<mapsto> val)\<rparr>"

definition Batch_DeleteInternal :: "Batch \<Rightarrow> string \<Rightarrow> Batch" where
  "Batch_DeleteInternal b key = b\<lparr>InternalOps := (InternalOps b)(key \<mapsto> None)\<rparr>"





section \<open>Segments and snapshots\<close>

text \<open>
  Modelled from the spec: package \<open>mem\<close> and the snapshot types are not part of the sources
  at hand. The spec: a segment is "an immutable unit holding a set of analyzed documents"
  with "a capability to map external document IDs to its internal document numbers"; the
  internal document number is "a segment-local, dense identifier". The segment is the list
  of its analyzed documents, a document's number is its position, and \<open>DocNumbers\<close> answers
  with the positions of the documents whose ID is among those asked for. A bitmap is the
  set of its members.
\<close>

type_synonym Segment = "AnalysisResult list"

definition mem_New :: Segment where
  "mem_New = []"

definition NewFromAnalyzedDocs :: "AnalysisResult list \<Rightarrow> Segment" where
  "NewFromAnalyzedDocs results = results"

definition DocNumbers :: "Segment \<Rightarrow> string list \<Rightarrow> nat set" where
  "DocNumbers seg ids =
     set (filter (\<lambda>n. ID (Document (seg ! n)) \<in> set ids) [0..<length seg])"

text \<open>
  Modelled from the spec: a snapshot is "an ordered sequence of entries, each (segment,
  segment-id, deletion-bitmap)", with internal metadata and "a monotonically increasing
  version counter". \<open>prepareSegment\<close> reads \<open>s.root.segment[i].id\<close> and
  \<open>s.root.segment[i].segment\<close>.
\<close>

record SegmentSnapshot =
  id_ss :: "64 word"
  segment_ss :: Segment
  deleted :: "nat set"

record IndexSnapshot =
  segment :: "SegmentSnapshot list"
  internal :: "string \<rightharpoonup> string"
  version :: nat



section \<open>index/scorch/scorch.go\<close>

text \<open>
  Lines 133-140: the pending introduction. The channel \<open>applied\<close> carries no data; the
  submitter waiting on it is the introduction's presence in the queue below.
\<close>

record segmentIntroduction =
  id_si :: "64 word"
  data :: Segment
  ids :: "string list"
  obsoletes :: "64 word \<rightharpoonup> nat set"
  internal_si :: InternalOps

text \<open>
  Lines 23-35. \<open>closeCh\<close> is \<open>nil\<close> until \<open>Open\<close> makes it. \<open>introductions\<close> is
  unbuffered: what it holds are the introductions of the submitters waiting in their send,
  first come first; \<open>None\<close> is the \<open>nil\<close> channel. The fields \<open>version\<close>,
  \<open>storeConfig\<close>, \<open>analysisQueue\<close> and \<open>stats\<close> are not read by anything below; the
  analysis time that \<open>Batch\<close> adds to the stats is wall-clock time.
\<close>

datatype chan = NilChan | OpenChan | ClosedChan

record Scorch =
  nextSegmentID :: "64 word"
  root :: IndexSnapshot
  closeCh :: chan
  introductions :: "segmentIntroduction list option"

text \<open>Lines 37-46.\<close>

definition NewScorch :: Scorch where
  "NewScorch =
     \<lparr>nextSegmentID = 0,
      root = \<lparr>segment = [], internal = Map.empty, version = 0\<rparr>,
      closeCh = NilChan,
      introductions = None\<rparr>"

text \<open>Lines 48-53; the loop that \<open>Open\<close> starts is \<open>mainLoop_step\<close> below.\<close>

definition Scorch_Open :: "Scorch \<Rightarrow> error option \<times> Scorch" where
  "Scorch_Open s = (None, s\<lparr>closeCh := OpenChan, introductions := Some []\<rparr>)"

text \<open>Lines 55-58; Go panics when a \<open>nil\<close> or a closed channel is closed.\<close>

definition Scorch_Close :: "Scorch \<Rightarrow> error option outcome \<times> Scorch" where
  "Scorch_Close s =
     (case closeCh s of
        NilChan \<Rightarrow> (Panicked ''close of nil channel'', s)
      | ClosedChan \<Rightarrow> (Panicked ''close of closed channel'', s)
      | OpenChan \<Rightarrow> (Returned None, s\<lparr>closeCh := ClosedChan\<rparr>))"

subsection \<open>Batch: analysis\<close>

text \<open>
  Lines 79-90, one iteration: the \<open>_id\<close> field goes into a document that is there, and the
  key joins \<open>ids\<close> either way. The documents are changed in place, so the batch holds the
  changed documents afterwards: they are the first component. \<open>numPlainTextBytes\<close> is
  summed up and never read.
\<close>

definition insert_id :: "Document \<Rightarrow> Document" where
  "insert_id doc =
     AddField doc (NewTextFieldCustom ''_id'' [] (ID doc) {IndexField, StoreField} None)"

definition Batch_insert_ids_step ::
  "string \<times> Document option \<Rightarrow> IndexOps \<times> nat \<times> string list \<Rightarrow> IndexOps \<times> nat \<times> string list" where
  "Batch_insert_ids_step = (\<lambda>(docID, doc) (ops, numUpdates, ids).
     (case doc of
        Some d \<Rightarrow> (ops @ [(docID, Some (insert_id d))], numUpdates + 1, ids @ [docID])
      | None \<Rightarrow> (ops @ [(docID, None)], numUpdates, ids @ [docID])))"

definition Batch_insert_ids :: "IndexOps \<Rightarrow> IndexOps \<times> nat \<times> string list" where
  "Batch_insert_ids ops = fold Batch_insert_ids_step ops ([], 0, [])"

text \<open>
  Lines 94-102: the analysis work put on the queue, one item per document that is there.
  The second iteration over the map may take another order than the first; the order of the
  results is the pool's choice in any case.
\<close>

fun Batch_queue_work :: "IndexOps \<Rightarrow> Document list" where
  "Batch_queue_work [] = []"
| "Batch_queue_work ((docID, doc) # ops) =
     (case doc of Some d \<Rightarrow> d # Batch_queue_work ops | None \<Rightarrow> Batch_queue_work ops)"

text \<open>
  Modelled from the spec: the analysis queue is not part of the sources at hand. The spec:
  "analysis work items are dispatched to a bounded worker pool", and results need not come
  in submission order. The workers call \<open>Analyze\<close> on each item they complete and send the
  result on the batch's channel; \<open>sched\<close> is the pool's choice of what it completes and in
  which order. A pool that completes every item once has \<open>fair sched work\<close>.
\<close>

definition AnalysisQueue ::
  "(Field \<Rightarrow> int \<times> TokenFrequencies) \<Rightarrow> (Document list \<Rightarrow> Document list) \<Rightarrow>
   Document list \<Rightarrow> AnalysisResult list" where
  "AnalysisQueue fieldAnalyze sched work = map (Analyze fieldAnalyze) (sched work)"

definition fair :: "(Document list \<Rightarrow> Document list) \<Rightarrow> Document list \<Rightarrow> bool" where
  "fair sched work = (mset (sched work) = mset work)"

text \<open>
  Modelled from the spec: a pool that completes every item once, in an order of its own.
  The order is given by a list of numbers: each item is placed among the items queued
  after it, at the position its number says; every order of completion is given by some
  list.
\<close>

definition place :: "nat \<Rightarrow> Document \<Rightarrow> Document list \<Rightarrow> Document list" where
  "place n d ds = take (n mod Suc (length ds)) ds @ d # drop (n mod Suc (length ds)) ds"

fun completing :: "nat list \<Rightarrow> Document list \<Rightarrow> Document list" where
  "completing order [] = []"
| "completing [] (d # work) = d # work"
| "completing (n # order) (d # work) = place n d (completing order work)"

text \<open>
  Lines 104-114. \<open>resultChan\<close> is the list of results that arrive on the channel, in order.
  A receive from the channel when nothing arrives any more never returns: \<open>None\<close>. The
  answer is the filled slice and what is left on the channel. The slice is made with
  \<open>numUpdates\<close> \<open>nil\<close> entries; the counters are \<open>uint64\<close> in the source and bounded by
  the size of the batch's map, so they do not wrap. Line 114 closes the channel once the
  loop is through; nothing reads it afterwards.
\<close>

function Batch_await_results ::
  "nat \<Rightarrow> nat \<Rightarrow> AnalysisResult list \<Rightarrow> AnalysisResult option list \<Rightarrow>
   (AnalysisResult option list \<times> AnalysisResult list) option" where
  "Batch_await_results numUpdates itemsDeQueued resultChan analysisResults =
     (if itemsDeQueued < numUpdates
      then (case resultChan of
              [] \<Rightarrow> None
            | result # rest \<Rightarrow>
                Batch_await_results numUpdates (Suc itemsDeQueued) rest
                  (analysisResults[itemsDeQueued := Some result]))
      else Some (analysisResults, resultChan))"
  by pat_completeness auto
termination
  by (relation "measure (\<lambda>(numUpdates, itemsDeQueued, _, _). numUpdates - itemsDeQueued)") auto

text \<open>
  Lines 73-123: from the batch to the new segment and the list of IDs. A \<open>nil\<close> entry
  handed to \<open>NewFromAnalyzedDocs\<close> would be dereferenced there.
\<close>

definition Batch_analyze ::
  "(Field \<Rightarrow> int \<times> TokenFrequencies) \<Rightarrow> (Document list \<Rightarrow> Document list) \<Rightarrow>
   Batch \<Rightarrow> (Segment \<times> string list) outcome" where
  "Batch_analyze fieldAnalyze sched batch =
     (case Batch_insert_ids (IndexOps batch) of (ops, numUpdates, ids') \<Rightarrow>
        (case Batch_await_results numUpdates 0
                (AnalysisQueue fieldAnalyze sched (Batch_queue_work ops))
                (replicate numUpdates None) of
           None \<Rightarrow> Blocked
         | Some (analysisResults, rest) \<Rightarrow>
             (if length analysisResults > 0
              then (case those analysisResults of
                      None \<Rightarrow> Panicked ''nil pointer dereference''
                    | Some results \<Rightarrow> Returned (NewFromAnalyzedDocs results, ids'))
              else Returned (mem_New, ids'))))"

subsection \<open>prepareSegment\<close>

text \<open>
  What \<open>prepareSegment\<close> does to the root lock, the segments and the channels, in program
  order. \<open>Lock\<close> and \<open>Unlock\<close> are the exclusive side of \<open>rootLock\<close>.
\<close>

datatype event =
    RLock | RUnlock | Lock | Unlock
  | DocNumbersCall "64 word"
  | SendIntroduction "64 word"
  | AwaitApplied "64 word"

text \<open>Lines 144-147, one iteration.\<close>

definition obsoletes_step ::
  "string list \<Rightarrow> SegmentSnapshot \<Rightarrow> (64 word \<rightharpoonup> nat set) \<times> event list \<Rightarrow>
   (64 word \<rightharpoonup> nat set) \<times> event list" where
  "obsoletes_step ids' sg = (\<lambda>(obs, tr).
     (let delta = DocNumbers (segment_ss sg) ids'
      in (obs(id_ss sg \<mapsto> delta), tr @ [DocNumbersCall (id_ss sg)])))"

text \<open>
  Lines 132-148: the new introduction with the next segment ID (\<open>atomic.AddUint64\<close>
  answers the new value, and wraps at \<open>2^64\<close>), then the obsoletes of every segment of the
  root, between \<open>RLock\<close> and \<open>RUnlock\<close>.
\<close>

definition prepareSegment_introduction ::
  "Scorch \<Rightarrow> Segment \<Rightarrow> string list \<Rightarrow> InternalOps \<Rightarrow> segmentIntroduction \<times> event list \<times> Scorch" where
  "prepareSegment_introduction s newSegment ids' internalOps =
     (let s' = s\<lparr>nextSegmentID := nextSegmentID s + 1\<rparr>;
          (obs, tr) = fold (obsoletes_step ids') (segment (root s')) (Map.empty, [RLock])
      in (\<lparr>id_si = nextSegmentID s', data = newSegment, ids = ids', obsoletes = obs,
           internal_si = internalOps\<rparr>,
          tr @ [RUnlock], s'))"

text \<open>
  Line 150: the send. On the \<open>nil\<close> channel it never returns and nobody ever sees the
  introduction; otherwise the submitter waits in the channel's queue.
\<close>

definition prepareSegment_send :: "Scorch \<Rightarrow> segmentIntroduction \<Rightarrow> Scorch option" where
  "prepareSegment_send s introduction =
     (case introductions s of
        None \<Rightarrow> None
      | Some waiting \<Rightarrow> Some (s\<lparr>introductions := Some (waiting @ [introduction])\<rparr>))"

subsection \<open>The introduction loop\<close>

text \<open>
  Modelled from the spec: \<open>mainLoop\<close> is not part of the sources at hand. The spec, 2: the
  introduction pipeline "accepts pending segment introductions, computes/validates obsoletes,
  builds the next Snapshot from the previous one plus the new segment, and publishes it";
  3: a pending introduction carries "the list of external IDs it touches (for obsolescence
  comparison)" beside its obsoletion map, and line 136 hands the loop these IDs; 4.2: the new
  snapshot is the "previous snapshot's segments, each segment's deletion bitmap unioned with
  any obsoletion this introduction computed for it, plus the new segment appended with a
  fresh deletion bitmap"; "internal key/value deltas are folded into the new snapshot's
  internal metadata"; "the new version counter = previous + 1". So a segment for which the
  introduction has computed an obsoletion gets that obsoletion, and a segment for which it
  has none (one that was introduced after the submitter read the root) is compared with the
  introduction's IDs by the loop.
\<close>

definition introduceSegment :: "IndexSnapshot \<Rightarrow> segmentIntroduction \<Rightarrow> IndexSnapshot" where
  "introduceSegment snap next =
     \<lparr>segment =
        map (\<lambda>sg. sg\<lparr>deleted := deleted sg \<union>
                     (case obsoletes next (id_ss sg) of
                        Some delta \<Rightarrow> delta
                      | None \<Rightarrow> DocNumbers (segment_ss sg) (ids next))\<rparr>)
            (segment snap)
        @ [\<lparr>id_ss = id_si next, segment_ss = data next, deleted = {}\<rparr>],
      internal = (\<lambda>key. case internal_si next key of
                           None \<Rightarrow> internal snap key
                         | Some val \<Rightarrow> val),
      version = version snap + 1\<rparr>"

text \<open>
  Modelled from the spec: the loop is "a single-writer loop" that "processes pending
  introductions one at a time, in submission order", "from open to close", and "exits when
  the engine is closed". It runs while \<open>closeCh\<close> is open; one turn takes the first
  waiting introduction, publishes the new root and signals the submitter.
\<close>

definition loopRunning :: "Scorch \<Rightarrow> bool" where
  "loopRunning s = (closeCh s = OpenChan)"

definition mainLoop_step :: "Scorch \<Rightarrow> Scorch" where
  "mainLoop_step s =
     (if loopRunning s
      then (case introductions s of
              Some (next # waiting) \<Rightarrow>
                s\<lparr>root := introduceSegment (root s) next, introductions := Some waiting\<rparr>
            | _ \<Rightarrow> s)
      else s)"

text \<open>
  Modelled from the spec: the loop's turns until nobody waits, as many as there are
  introductions waiting ("introductions are applied in FIFO submission order").
\<close>

definition mainLoop_drain :: "Scorch \<Rightarrow> Scorch" where
  "mainLoop_drain s =
     (case introductions s of
        None \<Rightarrow> s
      | Some waiting \<Rightarrow> (mainLoop_step ^^ length waiting) s)"

subsection \<open>prepareSegment and Batch, run to their end\<close>

text \<open>
  Lines 129-156, for a submitter whose call runs to its end before anything else happens
  to the index: the introduction is made and sent (line 150), the loop, if it runs, takes
  the waiting introductions in turn, and the wait for \<open>applied\<close> (line 153) ends with the
  submitter's own. Without the loop the submitter waits for ever. The only value
  \<open>prepareSegment\<close> returns is \<open>nil\<close>.
\<close>

definition prepareSegment ::
  "Scorch \<Rightarrow> Segment \<Rightarrow> string list \<Rightarrow> InternalOps \<Rightarrow> error option outcome \<times> event list \<times> Scorch" where
  "prepareSegment s newSegment ids' internalOps =
     (case prepareSegment_introduction s newSegment ids' internalOps of
        (introduction, tr, s1) \<Rightarrow>
          (case prepareSegment_send s1 introduction of
             None \<Rightarrow> (Blocked, tr @ [SendIntroduction (id_si introduction)], s1)
           | Some s2 \<Rightarrow>
               (if loopRunning s2
                then (Returned None,
                      tr @ [SendIntroduction (id_si introduction),
                            AwaitApplied (id_si introduction)],
                      mainLoop_drain s2)
                else (Blocked, tr @ [SendIntroduction (id_si introduction)], s2))))"

text \<open>
  Lines 73-127. The value of \<open>prepareSegment\<close> is dropped, and the only value \<open>Batch\<close>
  returns is \<open>nil\<close>.
\<close>

definition Scorch_Batch ::
  "(Field \<Rightarrow> int \<times> TokenFrequencies) \<Rightarrow> (Document list \<Rightarrow> Document list) \<Rightarrow>
   Scorch \<Rightarrow> Batch \<Rightarrow> error option outcome \<times> Scorch" where
  "Scorch_Batch fieldAnalyze sched s batch =
     (case Batch_analyze fieldAnalyze sched batch of
        Blocked \<Rightarrow> (Blocked, s)
      | Panicked msg \<Rightarrow> (Panicked msg, s)
      | Returned (newSegment, ids') \<Rightarrow>
          (case prepareSegment s newSegment ids' (InternalOps batch) of
             (Returned err, tr, s') \<Rightarrow> (Returned None, s')
           | (Blocked, tr, s') \<Rightarrow> (Blocked, s')
           | (Panicked msg, tr, s') \<Rightarrow> (Panicked msg, s')))"

text \<open>Lines 60-70 and 158-168: each wrapper makes a new batch, puts one operation in, and calls \<open>Batch\<close>.\<close>

definition Scorch_Update ::
  "(Field \<Rightarrow> int \<times> TokenFrequencies) \<Rightarrow> (Document list \<Rightarrow> Document list) \<Rightarrow>
   Scorch \<Rightarrow> Document \<Rightarrow> error option outcome \<times> Scorch" where
  "Scorch_Update fieldAnalyze sched s doc =
     (let b = Batch_Update NewBatch doc in Scorch_Batch fieldAnalyze sched s b)"

definition Scorch_Delete ::
  "(Field \<Rightarrow> int \<times> TokenFrequencies) \<Rightarrow> (Document list \<Rightarrow> Document list) \<Rightarrow>
   Scorch \<Rightarrow> string \<Rightarrow> error option outcome \<times> Scorch" where
  "Scorch_Delete fieldAnalyze sched s docID =
     (let b = Batch_Delete NewBatch docID in Scorch_Batch fieldAnalyze sched s b)"

definition Scorch_SetInternal ::
  "(Field \<Rightarrow> int \<times> TokenFrequencies) \<Rightarrow> (Document list \<Rightarrow> Document list) \<Rightarrow>
   Scorch \<Rightarrow> string \<Rightarrow> string option \<Rightarrow> error option outcome \<times> Scorch" where
  "Scorch_SetInternal fieldAnalyze sched s key val =
     (let b = Batch_SetInternal NewBatch key val in Scorch_Batch fieldAnalyze sched s b)"

definition Scorch_DeleteInternal ::
  "(Field \<Rightarrow> int \<times> TokenFrequencies) \<Rightarrow> (Document list \<Rightarrow> Document list) \<Rightarrow>
   Scorch \<Rightarrow> string \<Rightarrow> error option outcome \<times> Scorch" where
  "Scorch_DeleteInternal fieldAnalyze sched s key =
     (let b = Batch_DeleteInternal NewBatch key in Scorch_Batch fieldAnalyze sched s b)"

subsection \<open>Submitters and the loop, interleaved\<close>

text \<open>
  Several submitters may be inside \<open>Batch\<close> at once. A submitter's part up to its send
  (lines 73-150) is one action, a turn of the loop is another; a schedule is a list of
  actions. \<open>Batch_submit\<close> is \<open>Batch\<close> up to and including the send.
\<close>

definition Batch_submit ::
  "(Field \<Rightarrow> int \<times> TokenFrequencies) \<Rightarrow> (Document list \<Rightarrow> Document list) \<Rightarrow>
   Scorch \<Rightarrow> Batch \<Rightarrow> Scorch" where
  "Batch_submit fieldAnalyze sched s batch =
     (case Batch_analyze fieldAnalyze sched batch of
        Returned (newSegment, ids') \<Rightarrow>
          (case prepareSegment_introduction s newSegment ids' (InternalOps batch) of
             (introduction, tr, s1) \<Rightarrow>
               (case prepareSegment_send s1 introduction of None \<Rightarrow> s1 | Some s2 \<Rightarrow> s2))
      | _ \<Rightarrow> s)"

datatype action = Submit "Document list \<Rightarrow> Document list" Batch | Introduce

fun step :: "(Field \<Rightarrow> int \<times> TokenFrequencies) \<Rightarrow> Scorch \<Rightarrow> action \<Rightarrow> Scorch" where
  "step fieldAnalyze s (Submit sched batch) = Batch_submit fieldAnalyze sched s batch"
| "step fieldAnalyze s Introduce = mainLoop_step s"

definition run :: "(Field \<Rightarrow> int \<times> TokenFrequencies) \<Rightarrow> Scorch \<Rightarrow> action list \<Rightarrow> Scorch" where
  "run fieldAnalyze s acts = fold (\<lambda>a s'. step fieldAnalyze s' a) acts s"

text \<open>The segment IDs that the actions of a schedule are assigned, in the order of assignment.\<close>

fun assigned :: "(Field \<Rightarrow> int \<times> TokenFrequencies) \<Rightarrow> Scorch \<Rightarrow> action list \<Rightarrow> 64 word list" where
  "assigned fieldAnalyze s [] = []"
| "assigned fieldAnalyze s (Introduce # acts) =
     assigned fieldAnalyze (step fieldAnalyze s Introduce) acts"
| "assigned fieldAnalyze s (Submit sched batch # acts) =
     (case Batch_analyze fieldAnalyze sched batch of
        Returned (newSegment, ids') \<Rightarrow>
          [id_si (fst (prepareSegment_introduction s newSegment ids' (InternalOps batch)))]
      | _ \<Rightarrow> [])
     @ assigned fieldAnalyze (step fieldAnalyze s (Submit sched batch)) acts"







subsection \<open>Lock discipline along a trace\<close>

text \<open>
  \<open>queries_unlocked h tr\<close>: with \<open>h\<close> holds of the root lock at the start of \<open>tr\<close>, every
  \<open>DocNumbers\<close> query of \<open>tr\<close> happens while the lock is not held.
  \<open>queries_rlocked h tr\<close>: every query happens while the lock is held shared, the lock is
  never taken exclusively, and the send and the wait happen with the lock released.
\<close>

fun queries_unlocked :: "nat \<Rightarrow> event list \<Rightarrow> bool" where
  "queries_unlocked h [] = True"
| "queries_unlocked h (RLock # tr) = queries_unlocked (Suc h) tr"
| "queries_unlocked h (RUnlock # tr) = queries_unlocked (h - 1) tr"
| "queries_unlocked h (Lock # tr) = queries_unlocked (Suc h) tr"
| "queries_unlocked h (Unlock # tr) = queries_unlocked (h - 1) tr"
| "queries_unlocked h (DocNumbersCall i # tr) = (h = 0 \<and> queries_unlocked h tr)"
| "queries_unlocked h (SendIntroduction i # tr) = queries_unlocked h tr"
| "queries_unlocked h (AwaitApplied i # tr) = queries_unlocked h tr"

fun queries_rlocked :: "nat \<Rightarrow> event list \<Rightarrow> bool" where
  "queries_rlocked h [] = (h = 0)"
| "queries_rlocked h (RLock # tr) = queries_rlocked (Suc h) tr"
| "queries_rlocked h (RUnlock # tr) = (0 < h \<and> queries_rlocked (h - 1) tr)"
| "queries_rlocked h (Lock # tr) = False"
| "queries_rlocked h (Unlock # tr) = False"
| "queries_rlocked h (DocNumbersCall i # tr) = (0 < h \<and> queries_rlocked h tr)"
| "queries_rlocked h (SendIntroduction i # tr) = (h = 0 \<and> queries_rlocked h tr)"
| "queries_rlocked h (AwaitApplied i # tr) = (h = 0 \<and> queries_rlocked h tr)"

subsection \<open>One-operation batches, in the spec's words\<close>

text \<open>
  A batch containing only one upsert, only one tombstone, only one internal-metadata upsert
  or only one internal-metadata delete.
\<close>

definition single_upsert :: "Document \<Rightarrow> Batch" where
  "single_upsert doc = \<lparr>IndexOps = [(ID doc, Some doc)], InternalOps = Map.empty\<rparr>"

definition single_tombstone :: "string \<Rightarrow> Batch" where
  "single_tombstone docID = \<lparr>IndexOps = [(docID, None)], InternalOps = Map.empty\<rparr>"

definition single_internal_upsert :: "string \<Rightarrow> string option \<Rightarrow> Batch" where
  "single_internal_upsert key val = \<lparr>IndexOps = [], InternalOps = [key \<mapsto> val]\<rparr>"

definition single_internal_delete :: "string \<Rightarrow> Batch" where
  "single_internal_delete key = \<lparr>IndexOps = [], InternalOps = [key \<mapsto> None]\<rparr>"

subsection \<open>The spec's example scenario\<close>

text \<open>
  A document with one indexed text field, an analyzer that makes one token of a field's
  value, a pool that completes work in the order it was queued, and a freshly opened index.
\<close>

definition text_doc :: "string \<Rightarrow> string \<Rightarrow> Document" where
  "text_doc docID txt =
     \<lparr>ID = docID, Fields = [NewTextFieldCustom ''text'' [] txt {IndexField} None],
      CompositeFields = []\<rparr>"

definition one_token :: "Field \<Rightarrow> int \<times> TokenFrequencies" where
  "one_token field = (1, [(Value field, 1)])"

definition in_order :: "Document list \<Rightarrow> Document list" where
  "in_order work = work"

definition opened :: Scorch where
  "opened = snd (Scorch_Open NewScorch)"

text \<open>A batch of two upserts and one delete.\<close>

definition mixed_batch :: Batch where
  "mixed_batch =
     \<lparr>IndexOps = [(''a'', Some (text_doc ''a'' ''x'')), (''b'', None),
                  (''c'', Some (text_doc ''c'' ''y''))],
      InternalOps = Map.empty\<rparr>"

text \<open>The index after \<open>doc1\<close> was upserted, and after \<open>doc2\<close> was upserted as well.\<close>

definition after_doc1 :: Scorch where
  "after_doc1 = snd (Scorch_Update one_token in_order opened (text_doc ''doc1'' ''a''))"

definition after_doc2 :: Scorch where
  "after_doc2 = snd (Scorch_Update one_token in_order after_doc1 (text_doc ''doc2'' ''b''))"




section \<open>Validation of numeric ranges\<close>

text \<open>
  C9. \<open>Validate\<close> returns an error exactly when both \<open>Min\<close> and \<open>Max\<close> are \<open>nil\<close>, and
  returns \<open>nil\<close> exactly when at least one of them is set.
\<close>

theorem Validate_error_iff_no_bound:
  "(Validate q \<noteq> None) = (Min q = NilPtr \<and> Max q = NilPtr) \<and>
   (Validate q = None) = (Min q \<noteq> NilPtr \<or> Max q \<noteq> NilPtr)"
  by (auto simp: Validate_def)

theorem Validate_error_iff_no_bound_witness:
  "Validate (NewNumericRangeQuery NilPtr NilPtr) \<noteq> None \<and>
   Validate (NewNumericRangeQuery (Ptr 1) NilPtr) = None \<and>
   Validate (NewNumericRangeQuery NilPtr (Ptr 2)) = None \<and>
   Validate (NewNumericRangeQuery (Ptr 1) (Ptr 1)) = None"
  using Validate_error_iff_no_bound [of "NewNumericRangeQuery NilPtr NilPtr"]
    Validate_error_iff_no_bound [of "NewNumericRangeQuery (Ptr 1) NilPtr"]
    Validate_error_iff_no_bound [of "NewNumericRangeQuery NilPtr (Ptr 2)"]
    Validate_error_iff_no_bound [of "NewNumericRangeQuery (Ptr 1) (Ptr 1)"]
  by (simp add: NewNumericRangeQuery_def NewNumericRangeInclusiveQuery_def)

section \<open>The analysis phase of Batch\<close>

lemma fold_insert_ids_step:
  "fold Batch_insert_ids_step ops (acc, n, ks) =
     (acc @ map (\<lambda>(k, d). (k, map_option insert_id d)) ops,
      n + length (filter (\<lambda>(k, d). d \<noteq> None) ops),
      ks @ map fst ops)"
  by (induction ops arbitrary: acc n ks)
     (auto simp: Batch_insert_ids_step_def split: option.splits)

lemma Batch_insert_ids_eq:
  "Batch_insert_ids ops =
     (map (\<lambda>(k, d). (k, map_option insert_id d)) ops,
      length (filter (\<lambda>(k, d). d \<noteq> None) ops),
      map fst ops)"
  by (simp add: Batch_insert_ids_def fold_insert_ids_step)

lemma queue_work_insert_ids:
  "Batch_queue_work (map (\<lambda>(k, d). (k, map_option insert_id d)) ops) =
     map insert_id (Batch_queue_work ops)"
  by (induction ops rule: Batch_queue_work.induct) (auto split: option.splits)

lemma length_queue_work:
  "length (Batch_queue_work ops) = length (filter (\<lambda>(k, d). d \<noteq> None) ops)"
  by (induction ops rule: Batch_queue_work.induct) (auto split: option.splits)

lemma await_results_general:
  "length ar = n \<Longrightarrow> i \<le> n \<Longrightarrow>
   Batch_await_results n i ch ar =
     (if n - i \<le> length ch
      then Some (take i ar @ map Some (take (n - i) ch), drop (n - i) ch)
      else None)"
proof (induction n i ch ar rule: Batch_await_results.induct)
  case (1 n i ch ar)
  show ?case
  proof (cases "i < n")
    case False
    with 1 show ?thesis by (subst Batch_await_results.simps) simp
  next
    case True
    note lt = this
    show ?thesis
    proof (cases ch)
      case Nil
      with lt show ?thesis by (subst Batch_await_results.simps) simp
    next
      case (Cons r rest)
      have len: "length (ar[i := Some r]) = n" using 1 by simp
      have le: "Suc i \<le> n" using lt by simp
      have step: "take (Suc i) (ar[i := Some r]) = take i ar @ [Some r]"
        using lt 1(2) by (simp add: take_Suc_conv_app_nth)
      have sub: "n - i = Suc (n - Suc i)" using lt by simp
      show ?thesis
        using 1(1)[OF lt Cons len le] lt Cons
        by (subst Batch_await_results.simps) (simp add: step sub)
    qed
  qed
qed

lemma await_results_eq:
  "Batch_await_results n 0 ch (replicate n None) =
     (if n \<le> length ch then Some (map Some (take n ch), drop n ch) else None)"
  using await_results_general [of "replicate n None" n 0 ch] by simp

lemma those_map_Some: "those (map Some xs) = Some xs"
  by (induction xs) auto

lemma Batch_analyze_eq:
  "Batch_analyze fa sched b =
     (if length (Batch_queue_work (IndexOps b))
           \<le> length (sched (map insert_id (Batch_queue_work (IndexOps b))))
      then Returned
             (take (length (Batch_queue_work (IndexOps b)))
                (AnalysisQueue fa sched (map insert_id (Batch_queue_work (IndexOps b)))),
              map fst (IndexOps b))
      else Blocked)"
proof -
  define n where "n = length (Batch_queue_work (IndexOps b))"
  define ch where "ch = AnalysisQueue fa sched (map insert_id (Batch_queue_work (IndexOps b)))"
  have lch: "length ch = length (sched (map insert_id (Batch_queue_work (IndexOps b))))"
    by (simp add: ch_def AnalysisQueue_def)
  have unf: "Batch_analyze fa sched b =
     (case Batch_await_results n 0 ch (replicate n None) of
           None \<Rightarrow> Blocked
         | Some (analysisResults, rest) \<Rightarrow>
             (if length analysisResults > 0
              then (case those analysisResults of
                      None \<Rightarrow> Panicked ''nil pointer dereference''
                    | Some results \<Rightarrow> Returned (NewFromAnalyzedDocs results, map fst (IndexOps b)))
              else Returned (mem_New, map fst (IndexOps b))))"
    unfolding Batch_analyze_def Batch_insert_ids_eq prod.case queue_work_insert_ids
      length_queue_work [symmetric] n_def ch_def ..
  show ?thesis
  proof (cases "n \<le> length ch")
    case True
    then show ?thesis
      unfolding unf await_results_eq
      by (simp add: those_map_Some NewFromAnalyzedDocs_def mem_New_def lch
          flip: n_def ch_def)
  next
    case False
    then show ?thesis
      unfolding unf await_results_eq by (simp add: lch flip: n_def ch_def)
  qed
qed

lemma fair_length: "fair sched work \<Longrightarrow> length (sched work) = length work"
  unfolding fair_def by (metis size_mset)

lemma Batch_analyze_fair:
  assumes "fair sched (map insert_id (Batch_queue_work (IndexOps b)))"
  shows "Batch_analyze fa sched b =
     Returned (AnalysisQueue fa sched (map insert_id (Batch_queue_work (IndexOps b))),
               map fst (IndexOps b))"
  using fair_length [OF assms] by (simp add: Batch_analyze_eq AnalysisQueue_def)

lemma Batch_analyze_cases:
  "Batch_analyze fa sched b = Blocked \<or>
   (\<exists>seg. Batch_analyze fa sched b = Returned (seg, map fst (IndexOps b)))"
  by (simp add: Batch_analyze_eq)

lemma Batch_analyze_NewBatch: "Batch_analyze fa sched NewBatch = Returned (mem_New, [])"
  unfolding mem_New_def by (simp add: Batch_analyze_eq NewBatch_def)





section \<open>The example scenario, evaluated\<close>

lemmas batch_defs =
  Batch_analyze_def Batch_insert_ids_def Batch_insert_ids_step_def AnalysisQueue_def
  insert_id_def AddField_def NewTextFieldCustom_def Analyze_def NewFromAnalyzedDocs_def
  mem_New_def IsIndexed_def Compose_def one_token_def in_order_def text_doc_def
  NewBatch_def Batch_Update_def Batch_Delete_def Batch_SetInternal_def
  Batch_DeleteInternal_def single_upsert_def single_tombstone_def

lemmas scorch_defs =
  Scorch_Update_def Scorch_Delete_def Scorch_Batch_def prepareSegment_def
  prepareSegment_introduction_def prepareSegment_send_def obsoletes_step_def
  mainLoop_drain_def mainLoop_step_def loopRunning_def introduceSegment_def
  opened_def Scorch_Open_def Scorch_Close_def NewScorch_def DocNumbers_def

lemma after_doc1_state:
  "closeCh after_doc1 = OpenChan" "introductions after_doc1 = Some []"
  "nextSegmentID after_doc1 = 1" "version (root after_doc1) = 1"
  "segment (root after_doc1) =
     [\<lparr>id_ss = 1, segment_ss = [Analyze one_token (insert_id (text_doc ''doc1'' ''a''))],
       deleted = {}\<rparr>]"
  by (simp_all add: after_doc1_def batch_defs scorch_defs)

lemma after_doc2_state:
  "closeCh after_doc2 = OpenChan" "introductions after_doc2 = Some []"
  "nextSegmentID after_doc2 = 2" "version (root after_doc2) = 2"
  "segment (root after_doc2) =
     [\<lparr>id_ss = 1, segment_ss = [Analyze one_token (insert_id (text_doc ''doc1'' ''a''))],
       deleted = {}\<rparr>,
      \<lparr>id_ss = 2, segment_ss = [Analyze one_token (insert_id (text_doc ''doc2'' ''b''))],
       deleted = {}\<rparr>]"
  by (simp_all add: after_doc2_def after_doc1_def batch_defs scorch_defs)




section \<open>The obsoletes of an introduction\<close>

lemma obsoletes_step_eq:
  "obsoletes_step ks sg (obs, tr) =
     (obs(id_ss sg \<mapsto> DocNumbers (segment_ss sg) ks), tr @ [DocNumbersCall (id_ss sg)])"
  by (simp add: obsoletes_step_def)

lemma fold_obsoletes_step:
  "fold (obsoletes_step ks) segs (obs, tr) =
     (obs ++ map_of (rev (map (\<lambda>sg. (id_ss sg, DocNumbers (segment_ss sg) ks)) segs)),
      tr @ map (\<lambda>sg. DocNumbersCall (id_ss sg)) segs)"
proof (induction segs arbitrary: obs tr)
  case Nil
  show ?case by simp
next
  case (Cons sg segs)
  let ?f = "\<lambda>sg. (id_ss sg, DocNumbers (segment_ss sg) ks)"
  have m: "obs(id_ss sg \<mapsto> DocNumbers (segment_ss sg) ks) ++ map_of (rev (map ?f segs)) =
           obs ++ map_of (rev (map ?f (sg # segs)))"
    by (rule ext) (simp add: map_add_def split: option.splits)
  have "fold (obsoletes_step ks) (sg # segs) (obs, tr) =
        fold (obsoletes_step ks) segs
          (obs(id_ss sg \<mapsto> DocNumbers (segment_ss sg) ks), tr @ [DocNumbersCall (id_ss sg)])"
    by (simp add: obsoletes_step_eq)
  also have "\<dots> = (obs(id_ss sg \<mapsto> DocNumbers (segment_ss sg) ks) ++ map_of (rev (map ?f segs)),
                   (tr @ [DocNumbersCall (id_ss sg)]) @ map (\<lambda>sg. DocNumbersCall (id_ss sg)) segs)"
    by (rule Cons.IH)
  finally show ?case unfolding m by simp
qed

lemma prepareSegment_introduction_eq:
  "prepareSegment_introduction s newSegment ks internalOps =
     (\<lparr>id_si = nextSegmentID s + 1, data = newSegment, ids = ks,
       obsoletes = map_of (rev (map (\<lambda>sg. (id_ss sg, DocNumbers (segment_ss sg) ks))
                                  (segment (root s)))),
       internal_si = internalOps\<rparr>,
      RLock # map (\<lambda>sg. DocNumbersCall (id_ss sg)) (segment (root s)) @ [RUnlock],
      s\<lparr>nextSegmentID := nextSegmentID s + 1\<rparr>)"
  by (simp add: prepareSegment_introduction_def fold_obsoletes_step)




section \<open>The root lock in prepareSegment\<close>

lemma queries_rlocked_calls:
  "queries_rlocked (Suc h) (map (\<lambda>sg. DocNumbersCall (id_ss sg)) segs @ rest) =
     queries_rlocked (Suc h) rest"
  by (induction segs) simp_all

lemma prepareSegment_trace:
  "fst (snd (prepareSegment s seg ks iops)) =
     RLock # map (\<lambda>sg. DocNumbersCall (id_ss sg)) (segment (root s)) @
       [RUnlock, SendIntroduction (nextSegmentID s + 1)] @
       (if introductions s \<noteq> None \<and> closeCh s = OpenChan
        then [AwaitApplied (nextSegmentID s + 1)] else [])"
  by (auto simp: prepareSegment_def prepareSegment_introduction_eq prepareSegment_send_def
      loopRunning_def split: option.splits)

text \<open>
  C2, as amended. \<open>prepareSegment\<close> takes the shared read lock, makes every
  \<open>DocNumbers\<close> query while it holds that lock, never takes the exclusive lock, and
  releases the read lock before it sends the introduction and waits for it to be applied.
\<close>

theorem obsoletes_computed_under_read_lock:
  "fst (snd (prepareSegment s newSegment ks internalOps)) =
     RLock # map (\<lambda>sg. DocNumbersCall (id_ss sg)) (segment (root s)) @
       [RUnlock, SendIntroduction (nextSegmentID s + 1)] @
       (if introductions s \<noteq> None \<and> closeCh s = OpenChan
        then [AwaitApplied (nextSegmentID s + 1)] else []) \<and>
   queries_rlocked 0 (fst (snd (prepareSegment s newSegment ks internalOps)))"
  by (simp add: prepareSegment_trace queries_rlocked_calls)

theorem obsoletes_computed_under_read_lock_witness:
  "fst (snd (prepareSegment after_doc2 mem_New [''doc1''] Map.empty)) =
     [RLock, DocNumbersCall 1, DocNumbersCall 2, RUnlock, SendIntroduction 3, AwaitApplied 3] \<and>
   queries_rlocked 0 (fst (snd (prepareSegment after_doc2 mem_New [''doc1''] Map.empty)))"
  using obsoletes_computed_under_read_lock [of after_doc2 mem_New "[''doc1'']" Map.empty]
  by (simp add: after_doc2_state)

text \<open>
  C2 as stated fails: with one segment in the root, the \<open>DocNumbers\<close> query is made
  between \<open>RLock\<close> and \<open>RUnlock\<close>, not with the lock released.
\<close>

theorem queries_made_while_lock_held:
  "\<not> queries_unlocked 0 (fst (snd (prepareSegment after_doc1 mem_New [''doc1''] Map.empty)))"
  by (simp add: prepareSegment_trace after_doc1_state)

section \<open>Batch and Close\<close>


lemma prepareSegment_not_running:
  assumes "closeCh s \<noteq> OpenChan"
  shows "fst (prepareSegment s seg ks iops) = Blocked"
  using assms
  by (auto simp: prepareSegment_def prepareSegment_introduction_eq prepareSegment_send_def
      loopRunning_def split: option.splits)


lemma Scorch_Batch_outcome:
  "fst (Scorch_Batch fa sched s b) = Blocked \<or> fst (Scorch_Batch fa sched s b) = Returned None"
proof -
  consider "Batch_analyze fa sched b = Blocked"
    | seg where "Batch_analyze fa sched b = Returned (seg, map fst (IndexOps b))"
    using Batch_analyze_cases by blast
  then show ?thesis
  proof cases
    case 1
    then show ?thesis by (simp add: Scorch_Batch_def)
  next
    case 2
    then show ?thesis
      by (simp add: Scorch_Batch_def prepareSegment_def prepareSegment_introduction_eq
          prepareSegment_send_def split: option.splits)
  qed
qed

lemma Scorch_Batch_not_running:
  assumes "closeCh s \<noteq> OpenChan"
  shows "fst (Scorch_Batch fa sched s b) = Blocked"
proof -
  consider "Batch_analyze fa sched b = Blocked"
    | seg where "Batch_analyze fa sched b = Returned (seg, map fst (IndexOps b))"
    using Batch_analyze_cases by blast
  then show ?thesis
  proof cases
    case 1
    then show ?thesis by (simp add: Scorch_Batch_def)
  next
    case 2
    obtain r tr s' where p:
      "prepareSegment s seg (map fst (IndexOps b)) (InternalOps b) = (r, tr, s')"
      by (cases "prepareSegment s seg (map fst (IndexOps b)) (InternalOps b)")
    have "r = Blocked"
      using prepareSegment_not_running [OF assms, of seg "map fst (IndexOps b)" "InternalOps b"]
      by (simp add: p)
    then show ?thesis
      by (simp add: Scorch_Batch_def 2 p)
  qed
qed

section \<open>The one-operation wrappers\<close>

text \<open>
  C10. \<open>Update\<close>, \<open>Delete\<close>, \<open>SetInternal\<close> and \<open>DeleteInternal\<close> give the same
  outcome and the same index as \<open>Batch\<close> on the batch that holds only that one operation.
\<close>

theorem wrappers_are_single_operation_batches:
  "Scorch_Update fa sched s doc = Scorch_Batch fa sched s (single_upsert doc) \<and>
   Scorch_Delete fa sched s docID = Scorch_Batch fa sched s (single_tombstone docID) \<and>
   Scorch_SetInternal fa sched s key val =
     Scorch_Batch fa sched s (single_internal_upsert key val) \<and>
   Scorch_DeleteInternal fa sched s key =
     Scorch_Batch fa sched s (single_internal_delete key)"
  by (simp add: Scorch_Update_def Scorch_Delete_def Scorch_SetInternal_def
      Scorch_DeleteInternal_def NewBatch_def Batch_Update_def Batch_Delete_def
      Batch_SetInternal_def Batch_DeleteInternal_def single_upsert_def single_tombstone_def
      single_internal_upsert_def single_internal_delete_def)

theorem wrappers_are_single_operation_batches_witness:
  "Scorch_Update one_token in_order opened (text_doc ''doc1'' ''a'') =
     Scorch_Batch one_token in_order opened
       \<lparr>IndexOps = [(''doc1'', Some (text_doc ''doc1'' ''a''))], InternalOps = Map.empty\<rparr> \<and>
   Scorch_Delete one_token in_order opened ''doc1'' =
     Scorch_Batch one_token in_order opened
       \<lparr>IndexOps = [(''doc1'', None)], InternalOps = Map.empty\<rparr> \<and>
   Scorch_SetInternal one_token in_order opened ''k'' (Some ''v'') =
     Scorch_Batch one_token in_order opened
       \<lparr>IndexOps = [], InternalOps = [''k'' \<mapsto> Some ''v'']\<rparr> \<and>
   Scorch_DeleteInternal one_token in_order opened ''k'' =
     Scorch_Batch one_token in_order opened
       \<lparr>IndexOps = [], InternalOps = [''k'' \<mapsto> None]\<rparr>"
  using wrappers_are_single_operation_batches
          [of one_token in_order opened "text_doc ''doc1'' ''a''" "''doc1''" "''k''" "Some ''v''"]
  by (simp add: single_upsert_def single_tombstone_def single_internal_upsert_def
      single_internal_delete_def text_doc_def)

section \<open>Live documents after an introduction\<close>




section \<open>Segment IDs\<close>

lemma nextSegmentID_step:
  "nextSegmentID (step fa s a) =
     nextSegmentID s + of_nat (length (assigned fa s [a]))"
proof (cases a)
  case Introduce
  then show ?thesis
    by (simp add: mainLoop_step_def split: option.splits list.splits)
next
  case (Submit sched b)
  consider "Batch_analyze fa sched b = Blocked"
    | seg where "Batch_analyze fa sched b = Returned (seg, map fst (IndexOps b))"
    using Batch_analyze_cases by blast
  then show ?thesis
  proof cases
    case 1
    with Submit show ?thesis by (simp add: Batch_submit_def)
  next
    case 2
    with Submit show ?thesis
      by (simp add: Batch_submit_def prepareSegment_introduction_eq prepareSegment_send_def
          split: option.splits)
  qed
qed

lemma assigned_Cons:
  "assigned fa s (a # acts) = assigned fa s [a] @ assigned fa (step fa s a) acts"
  by (cases a) simp_all

lemma assigned_single:
  "assigned fa s [a] = (if assigned fa s [a] = [] then [] else [nextSegmentID s + 1])"
proof (cases a)
  case Introduce
  then show ?thesis by simp
next
  case (Submit sched b)
  then show ?thesis
    by (simp add: prepareSegment_introduction_eq split: outcome.splits)
qed

lemma assigned_eq:
  "assigned fa s acts =
     map (\<lambda>k. nextSegmentID s + of_nat k) [1..<Suc (length (assigned fa s acts))]"
proof (induction acts arbitrary: s)
  case Nil
  show ?case by simp
next
  case (Cons a acts)
  let ?rest = "assigned fa (step fa s a) acts"
  let ?w = "nextSegmentID s"
  show ?case
  proof (cases "assigned fa s [a] = []")
    case True
    then have nx: "nextSegmentID (step fa s a) = ?w"
      by (simp add: nextSegmentID_step)
    have eq1: "assigned fa s (a # acts) = ?rest"
      by (simp add: assigned_Cons [of fa s a acts] True)
    have ih: "?rest = map (\<lambda>k. ?w + of_nat k) [1..<Suc (length ?rest)]"
      using Cons.IH [of "step fa s a"] unfolding nx .
    show ?thesis unfolding eq1 by (rule ih)
  next
    case False
    then have one: "assigned fa s [a] = [?w + 1]"
      using assigned_single [of fa s a] by simp
    then have n: "nextSegmentID (step fa s a) = ?w + 1"
      by (simp add: nextSegmentID_step)
    have eq2: "assigned fa s (a # acts) = (?w + 1) # ?rest"
      by (simp add: assigned_Cons [of fa s a acts] one)
    have len: "length ((?w + 1) # ?rest) = Suc (length ?rest)"
      by simp
    have ih: "map (\<lambda>k. (?w + 1) + of_nat k) [1..<Suc (length ?rest)] = ?rest"
      using Cons.IH [of "step fa s a"] unfolding n by (rule sym)
    have "[1..<Suc (Suc (length ?rest))] = 1 # map Suc [1..<Suc (length ?rest)]"
      by (simp add: upt_conv_Cons map_Suc_upt del: upt_Suc)
    then have "map (\<lambda>k. ?w + of_nat k) [1..<Suc (Suc (length ?rest))] =
        (?w + 1) # map (\<lambda>k. (?w + 1) + of_nat k) [1..<Suc (length ?rest)]"
      by (simp add: comp_def add.assoc del: upt_Suc)
    also have "\<dots> = (?w + 1) # ?rest"
      by (simp only: ih)
    finally show ?thesis
      unfolding eq2 len by (rule sym)
  qed
qed

lemma unat_add_of_nat:
  "unat (w :: 64 word) + k < 2 ^ 64 \<Longrightarrow> unat (w + of_nat k) = unat w + k"
  by (simp add: unat_word_ariths unat_of_nat)

lemma assigned_increasing:
  assumes "unat (nextSegmentID s) + length (assigned fa s acts) < 2 ^ 64"
  shows "sorted_wrt (<) (assigned fa s acts) \<and>
         (\<forall>i \<in> set (assigned fa s acts). nextSegmentID s < i)"
proof -
  let ?n = "length (assigned fa s acts)"
  let ?w = "nextSegmentID s"
  have u: "unat (?w + of_nat k) = unat ?w + k" if "k \<le> ?n" for k
    using that assms by (intro unat_add_of_nat) simp
  have "sorted_wrt (\<lambda>i j. ?w + of_nat i < ?w + of_nat j) [1..<Suc ?n]"
  proof (rule sorted_wrt_mono_rel [of _ "(<)"])
    show "sorted_wrt (<) [1..<Suc ?n]" by (simp del: upt_Suc)
    fix i j assume "i \<in> set [1..<Suc ?n]" "j \<in> set [1..<Suc ?n]" "i < j"
    then show "?w + of_nat i < ?w + of_nat j"
      by (simp add: word_less_nat_alt u del: upt_Suc)
  qed
  then have a: "sorted_wrt (<) (assigned fa s acts)"
    by (subst assigned_eq) (simp add: sorted_wrt_map del: upt_Suc)
  have "?w < ?w + of_nat k" if "k \<in> set [1..<Suc ?n]" for k
    using that by (simp add: word_less_nat_alt u del: upt_Suc)
  then have b: "\<forall>i \<in> set (assigned fa s acts). ?w < i"
    by (subst assigned_eq) (simp del: upt_Suc)
  from a b show ?thesis by simp
qed

text \<open>
  C8, as amended. Along any schedule the \<open>k\<close>-th segment ID assigned is the counter's
  starting value plus \<open>k\<close>, in 64-bit arithmetic; as long as the counter does not pass
  \<open>2^64 - 1\<close> the IDs are strictly increasing in the order of assignment, none is assigned
  twice, and all are above the starting value.
\<close>

theorem segment_ids_increase:
  "assigned fa s acts =
     map (\<lambda>k. nextSegmentID s + of_nat k) [1..<Suc (length (assigned fa s acts))] \<and>
   (unat (nextSegmentID s) + length (assigned fa s acts) < 2 ^ 64 \<longrightarrow>
      sorted_wrt (<) (assigned fa s acts) \<and> distinct (assigned fa s acts) \<and>
      (\<forall>i \<in> set (assigned fa s acts). nextSegmentID s < i))"
proof -
  have "distinct xs" if "sorted_wrt (<) xs" for xs :: "64 word list"
    using that by (simp add: strict_sorted_iff)
  then show ?thesis
    using assigned_eq [of fa s acts] assigned_increasing [of s fa acts] by blast
qed

theorem segment_ids_increase_witness:
  "assigned one_token opened
     [Submit in_order (single_upsert (text_doc ''doc1'' ''a'')), Introduce,
      Submit in_order (single_tombstone ''doc1''), Submit in_order NewBatch, Introduce] =
   [1, 2, 3] \<and>
   sorted_wrt (<) (assigned one_token opened
     [Submit in_order (single_upsert (text_doc ''doc1'' ''a'')), Introduce,
      Submit in_order (single_tombstone ''doc1''), Submit in_order NewBatch, Introduce])"
proof -
  let ?acts = "[Submit in_order (single_upsert (text_doc ''doc1'' ''a'')), Introduce,
      Submit in_order (single_tombstone ''doc1''), Submit in_order NewBatch, Introduce]"
  have l: "length (assigned one_token opened ?acts) = 3"
    by (simp add: Batch_analyze_eq single_upsert_def single_tombstone_def NewBatch_def
        in_order_def)
  have z: "nextSegmentID opened = 0"
    by (simp add: opened_def Scorch_Open_def NewScorch_def)
  have u: "[1..<Suc 3] = [1, 2, 3]"
    by (simp add: upt_rec)
  show ?thesis
    using segment_ids_increase [of one_token opened ?acts]
    unfolding l z u by simp
qed

lemma length_assigned_replicate:
  "length (assigned fa s (replicate n (Submit sched NewBatch))) = n"
  by (induction n arbitrary: s) (simp_all add: Batch_analyze_NewBatch)

lemma nth_map_from_one:
  "i < n \<Longrightarrow> map f [1..<Suc n] ! i = f (Suc i)"
  by (simp del: upt_Suc)

lemma word64_wraps: "(of_nat (Suc (2 ^ 64)) :: 64 word) = of_nat (Suc 0)"
  by simp

text \<open>
  C8 as stated fails: the counter is a \<open>uint64\<close> that wraps; the introduction number
  \<open>2^64 + 1\<close> of a freshly opened index is assigned the ID 1 that the first one had.
\<close>

theorem segment_ids_reused_after_wrap_around:
  "\<not> distinct (assigned one_token opened (replicate (2 ^ 64 + 1) (Submit in_order NewBatch)))"
proof
  define n :: nat where "n = 2 ^ 64 + 1"
  let ?xs = "assigned one_token opened (replicate n (Submit in_order NewBatch))"
  assume "distinct (assigned one_token opened (replicate (2 ^ 64 + 1) (Submit in_order NewBatch)))"
  then have d: "distinct ?xs" unfolding n_def .
  have l: "length ?xs = n"
    by (rule length_assigned_replicate)
  have z: "nextSegmentID opened = 0"
    by (simp add: opened_def Scorch_Open_def NewScorch_def)
  have xs: "?xs = map (\<lambda>k. 0 + of_nat k) [1..<Suc n]"
    using assigned_eq [of one_token opened "replicate n (Submit in_order NewBatch)"]
    unfolding l z .
  have i0: "0 < n" and i1: "2 ^ 64 < n" by (simp_all add: n_def)
  have a: "?xs ! 0 = (of_nat (Suc 0) :: 64 word)"
    unfolding xs nth_map_from_one [OF i0] by simp
  have b: "?xs ! (2 ^ 64) = (of_nat (Suc (2 ^ 64)) :: 64 word)"
    unfolding xs nth_map_from_one [OF i1] by simp
  have j0: "0 < length ?xs" and j1: "2 ^ 64 < length ?xs"
    using i0 i1 by (simp_all only: l)
  have "?xs ! 0 = ?xs ! (2 ^ 64)"
    unfolding a b word64_wraps ..
  then have "(0 :: nat) = 2 ^ 64"
    using nth_eq_iff_index_eq [OF d j0 j1] by (rule iffD1 [rotated])
  then show False by simp
qed

section \<open>Uniqueness of live documents\<close>













section \<open>The turns of the loop\<close>

lemma introduceSegment_ids:
  "map id_ss (segment (introduceSegment snap next)) = map id_ss (segment snap) @ [id_si next]"
  "map segment_ss (segment (introduceSegment snap next)) =
     map segment_ss (segment snap) @ [data next]"
  "length (segment (introduceSegment snap next)) = Suc (length (segment snap))"
  "last (segment (introduceSegment snap next)) =
     \<lparr>id_ss = id_si next, segment_ss = data next, deleted = {}\<rparr>"
  "version (introduceSegment snap next) = version snap + 1"
  by (simp_all add: introduceSegment_def comp_def)







lemma mainLoop_step_running:
  assumes "closeCh s = OpenChan" and "introductions s = Some (x # q)"
  shows "mainLoop_step s = s\<lparr>root := introduceSegment (root s) x, introductions := Some q\<rparr>"
  using assms by (simp add: mainLoop_step_def loopRunning_def)

lemma mainLoop_drain_running:
  assumes "closeCh s = OpenChan" and "introductions s = Some q"
  shows "mainLoop_drain s =
           s\<lparr>root := fold (\<lambda>x snap. introduceSegment snap x) q (root s),
             introductions := Some []\<rparr>"
  using assms
proof (induction q arbitrary: s)
  case Nil
  then show ?case by (simp add: mainLoop_drain_def)
next
  case (Cons x q)
  let ?s1 = "s\<lparr>root := introduceSegment (root s) x, introductions := Some q\<rparr>"
  have st: "mainLoop_step s = ?s1"
    by (rule mainLoop_step_running [OF Cons.prems])
  have "mainLoop_drain s = (mainLoop_step ^^ length q) (mainLoop_step s)"
    using Cons.prems(2) by (simp add: mainLoop_drain_def funpow_swap1)
  also have "\<dots> = mainLoop_drain ?s1"
    by (simp add: st mainLoop_drain_def)
  also have "\<dots> = ?s1\<lparr>root := fold (\<lambda>x snap. introduceSegment snap x) q (root ?s1),
             introductions := Some []\<rparr>"
    using Cons.prems(1) by (intro Cons.IH) simp_all
  finally show ?case by simp
qed

lemma prepareSegment_queue:
  assumes "closeCh s = OpenChan" and "introductions s = Some q"
  shows "prepareSegment s seg ks iops =
           (Returned None,
            RLock # map (\<lambda>sg. DocNumbersCall (id_ss sg)) (segment (root s)) @
              [RUnlock, SendIntroduction (nextSegmentID s + 1), AwaitApplied (nextSegmentID s + 1)],
            s\<lparr>nextSegmentID := nextSegmentID s + 1,
              root := introduceSegment (root (mainLoop_drain s))
                        (fst (prepareSegment_introduction s seg ks iops)),
              introductions := Some []\<rparr>)"
proof -
  let ?i = "fst (prepareSegment_introduction s seg ks iops)"
  let ?s2 = "s\<lparr>nextSegmentID := nextSegmentID s + 1, introductions := Some (q @ [?i])\<rparr>"
  have d2: "mainLoop_drain ?s2 =
      ?s2\<lparr>root := fold (\<lambda>x snap. introduceSegment snap x) (q @ [?i]) (root ?s2),
          introductions := Some []\<rparr>"
    using assms(1) by (intro mainLoop_drain_running) simp_all
  have d: "root (mainLoop_drain s) = fold (\<lambda>x snap. introduceSegment snap x) q (root s)"
    by (simp add: mainLoop_drain_running [OF assms])
  show ?thesis
    using assms
    by (simp add: prepareSegment_def prepareSegment_introduction_eq prepareSegment_send_def
        loopRunning_def d2 [unfolded prepareSegment_introduction_eq, simplified] d)
qed

lemma Scorch_Batch_queue:
  assumes "closeCh s = OpenChan" and "introductions s = Some q"
    and "Batch_analyze fa sched b = Returned (seg, ks)"
  shows "Scorch_Batch fa sched s b =
           (Returned None,
            s\<lparr>nextSegmentID := nextSegmentID s + 1,
              root := introduceSegment (root (mainLoop_drain s))
                        (fst (prepareSegment_introduction s seg ks (InternalOps b))),
              introductions := Some []\<rparr>)"
  by (simp add: Scorch_Batch_def assms(3) prepareSegment_queue [OF assms(1,2)])

section \<open>The identity field\<close>

text \<open>
  C5. Every document of a batch that is there gets the field \<open>_id\<close>, holding its
  external ID, indexed and stored, at the end of its fields before its work is queued: what
  \<open>Batch\<close> hands to the pool are the documents of the upserts with the field in place, the
  results it collects are their analyses, and on a running index they make the segment it
  introduces. A key with no document gets no field and no work: the work is one item per
  document that is there, in the batch's order.
\<close>
theorem Batch_injects_id_field:
  "(let work = map (\<lambda>d. d\<lparr>Fields := Fields d @
                      [\<lparr>Name = ''_id'', ArrayPositions = [], Value = ID d,
                        Options = {IndexField, StoreField}, Analyzer = None\<rparr>]\<rparr>)
                 (Batch_queue_work (IndexOps b))
    in Batch_analyze fa sched b =
         (if length work \<le> length (sched work)
          then Returned (take (length work) (map (Analyze fa) (sched work)), map fst (IndexOps b))
          else Blocked) \<and>
       (loopRunning s \<longrightarrow> introductions s = Some q \<longrightarrow> length (sched work) = length work \<longrightarrow>
          fst (Scorch_Batch fa sched s b) = Returned None \<and>
          segment_ss (last (segment (root (snd (Scorch_Batch fa sched s b))))) =
            map (Analyze fa) (sched work))) \<and>
   map Some (Batch_queue_work (IndexOps b)) = filter (\<lambda>doc. doc \<noteq> None) (map snd (IndexOps b)) \<and>
   IsIndexed {IndexField, StoreField} \<and> IsStored {IndexField, StoreField}"
proof -
  let ?inj = "\<lambda>d. d\<lparr>Fields := Fields d @
                [\<lparr>Name = ''_id'', ArrayPositions = [], Value = ID d,
                  Options = {IndexField, StoreField}, Analyzer = None\<rparr>]\<rparr>"
  let ?work = "map ?inj (Batch_queue_work (IndexOps b))"
  have ins: "insert_id = ?inj"
    by (rule ext) (simp add: insert_id_def AddField_def NewTextFieldCustom_def)
  have an: "Batch_analyze fa sched b =
         (if length ?work \<le> length (sched ?work)
          then Returned (take (length ?work) (map (Analyze fa) (sched ?work)), map fst (IndexOps b))
          else Blocked)"
    using Batch_analyze_eq [of fa sched b] unfolding ins by (simp add: AnalysisQueue_def)
  have run: "fst (Scorch_Batch fa sched s b) = Returned None \<and>
          segment_ss (last (segment (root (snd (Scorch_Batch fa sched s b))))) =
            map (Analyze fa) (sched ?work)"
    if r: "loopRunning s" and i: "introductions s = Some q"
      and l: "length (sched ?work) = length ?work"
  proof -
    have c: "closeCh s = OpenChan" using r by (simp add: loopRunning_def)
    have a: "Batch_analyze fa sched b = Returned (map (Analyze fa) (sched ?work), map fst (IndexOps b))"
      using l by (simp add: an)
    show ?thesis
      by (simp add: Scorch_Batch_queue [OF c i a] introduceSegment_ids
          prepareSegment_introduction_eq)
  qed
  have c: "map Some (Batch_queue_work ops) = filter (\<lambda>doc. doc \<noteq> None) (map snd ops)" for ops
    by (induction ops rule: Batch_queue_work.induct) (auto split: option.splits)
  show ?thesis
    unfolding Let_def using an run c [of "IndexOps b"]
    by (simp add: IsIndexed_def IsStored_def)
qed

theorem Batch_injects_id_field_witness:
  "Batch_analyze one_token in_order mixed_batch =
     Returned
       ([Analyze one_token
           \<lparr>ID = ''a'',
            Fields = [\<lparr>Name = ''text'', ArrayPositions = [], Value = ''x'',
                        Options = {IndexField}, Analyzer = None\<rparr>,
                      \<lparr>Name = ''_id'', ArrayPositions = [], Value = ''a'',
                        Options = {IndexField, StoreField}, Analyzer = None\<rparr>],
            CompositeFields = []\<rparr>,
         Analyze one_token
           \<lparr>ID = ''c'',
            Fields = [\<lparr>Name = ''text'', ArrayPositions = [], Value = ''y'',
                        Options = {IndexField}, Analyzer = None\<rparr>,
                      \<lparr>Name = ''_id'', ArrayPositions = [], Value = ''c'',
                        Options = {IndexField, StoreField}, Analyzer = None\<rparr>],
            CompositeFields = []\<rparr>],
        [''a'', ''b'', ''c'']) \<and>
   fst (Scorch_Batch one_token in_order opened mixed_batch) = Returned None \<and>
   map (\<lambda>r. map Name (Fields (Document r)))
     (segment_ss (last (segment (root (snd (Scorch_Batch one_token in_order opened mixed_batch)))))) =
     [[''text'', ''_id''], [''text'', ''_id'']]"
proof -
  have o: "loopRunning opened" "introductions opened = Some []"
    by (simp_all add: opened_def Scorch_Open_def NewScorch_def loopRunning_def)
  show ?thesis
    using Batch_injects_id_field [of mixed_batch one_token in_order opened "[]"] o
    by (simp add: mixed_batch_def in_order_def text_doc_def NewTextFieldCustom_def Let_def
        Analyze_def)
qed

section \<open>Batch, Close and the loop\<close>

text \<open>
  C4, as amended. \<open>Batch\<close> never returns an error. On an index whose loop is running, with
  a pool that completes every item, it returns \<open>nil\<close> once the introductions waiting before
  its own, and then its own, have been applied. On an index whose loop is not running it
  blocks for ever. \<open>Close\<close> of an open index closes \<open>closeCh\<close> and returns \<open>nil\<close>; the
  waiting introductions stay as they are.
\<close>
theorem Batch_never_returns_error:
  "fst (Scorch_Batch fa sched s b) \<noteq> Returned (Some e) \<and>
   (loopRunning s \<longrightarrow> introductions s = Some q \<longrightarrow>
    fair sched (Batch_queue_work (fst (Batch_insert_ids (IndexOps b)))) \<longrightarrow>
      fst (Scorch_Batch fa sched s b) = Returned None \<and>
      introductions (snd (Scorch_Batch fa sched s b)) = Some [] \<and>
      root (snd (Scorch_Batch fa sched s b)) =
        introduceSegment (root (mainLoop_drain s))
          (fst (prepareSegment_introduction s
                  (AnalysisQueue fa sched (Batch_queue_work (fst (Batch_insert_ids (IndexOps b)))))
                  (map fst (IndexOps b)) (InternalOps b)))) \<and>
   (\<not> loopRunning s \<longrightarrow> fst (Scorch_Batch fa sched s b) = Blocked) \<and>
   (closeCh s = OpenChan \<longrightarrow> Scorch_Close s = (Returned None, s\<lparr>closeCh := ClosedChan\<rparr>))"
proof -
  let ?work = "Batch_queue_work (fst (Batch_insert_ids (IndexOps b)))"
  have w: "?work = map insert_id (Batch_queue_work (IndexOps b))"
    by (simp add: Batch_insert_ids_eq queue_work_insert_ids)
  have a: "fst (Scorch_Batch fa sched s b) \<noteq> Returned (Some e)"
    using Scorch_Batch_outcome [of fa sched s b] by auto
  have b: "\<not> loopRunning s \<longrightarrow> fst (Scorch_Batch fa sched s b) = Blocked"
    using Scorch_Batch_not_running [of s fa sched b] by (simp add: loopRunning_def)
  have c: "closeCh s = OpenChan \<longrightarrow> Scorch_Close s = (Returned None, s\<lparr>closeCh := ClosedChan\<rparr>)"
    by (simp add: Scorch_Close_def)
  have d: "fst (Scorch_Batch fa sched s b) = Returned None \<and>
      introductions (snd (Scorch_Batch fa sched s b)) = Some [] \<and>
      root (snd (Scorch_Batch fa sched s b)) =
        introduceSegment (root (mainLoop_drain s))
          (fst (prepareSegment_introduction s (AnalysisQueue fa sched ?work)
                  (map fst (IndexOps b)) (InternalOps b)))"
    if r: "loopRunning s" and i: "introductions s = Some q" and f: "fair sched ?work"
  proof -
    have o: "closeCh s = OpenChan" using r by (simp add: loopRunning_def)
    have an: "Batch_analyze fa sched b = Returned (AnalysisQueue fa sched ?work, map fst (IndexOps b))"
      using Batch_analyze_fair [of sched b fa] f unfolding w by simp
    show ?thesis
      by (simp add: Scorch_Batch_queue [OF o i an])
  qed
  from a b c d show ?thesis by blast
qed

theorem Batch_never_returns_error_witness:
  "fst (Scorch_Batch one_token in_order NewScorch (single_tombstone ''doc1'')) = Blocked \<and>
   fst (Scorch_Batch one_token in_order opened (single_tombstone ''doc1'')) = Returned None \<and>
   Scorch_Close opened = (Returned None, opened\<lparr>closeCh := ClosedChan\<rparr>)"
  using Batch_never_returns_error [of one_token in_order NewScorch "single_tombstone ''doc1''"]
    Batch_never_returns_error [of one_token in_order opened "single_tombstone ''doc1''" _ "[]"]
  by (simp add: NewScorch_def opened_def Scorch_Open_def loopRunning_def fair_def in_order_def)

text \<open>
  C4 as stated fails: a batch submitted after \<open>Close\<close> gets no error; its call never
  returns.
\<close>
theorem Batch_after_Close_blocks:
  "fst (Scorch_Batch one_token in_order (snd (Scorch_Close opened))
          (single_upsert (text_doc ''doc1'' ''a''))) = Blocked"
  by (simp add: batch_defs scorch_defs)

section \<open>Batches without upserts\<close>




section \<open>The obsoletes map along a schedule\<close>












section \<open>Uniqueness along a schedule\<close>








lemma completing_any_order:
  "mset ys = mset xs \<Longrightarrow> \<exists>order. completing order xs = ys"
proof (induction xs arbitrary: ys)
  case Nil
  then show ?case by simp
next
  case (Cons d work)
  then have "d \<in> set ys"
    by (metis list.set_intros(1) set_mset_mset)
  then obtain as bs where ys: "ys = as @ d # bs"
    by (auto simp: in_set_conv_decomp)
  with Cons.prems have "mset (as @ bs) = mset work"
    by simp
  from Cons.IH [OF this] obtain order where o: "completing order work = as @ bs"
    by blast
  have "completing (length as # order) (d # work) = ys"
    by (simp add: o place_def ys)
  then show ?case ..
qed
















end
